theory Spec2Isabelle
  imports Main "HOL-Library.Word"
begin

section \<open>Library functions used by package value\<close>

text \<open>
  The Go standard library is not part of the repository; the three pieces of it that
  \<open>value.New\<close> calls are written out here from their documentation:
  \<open>encoding/hex\<close> (\<open>DecodeString\<close>, and the \<open>%x\<close> verb of \<open>fmt.Sprintf\<close>, which
  prints two lower-case digits per byte), and \<open>math/big\<close> (\<open>Int.Bytes\<close>, \<open>Int.SetBytes\<close>).
\<close>

type_synonym byte = "8 word"

datatype hex_error = InvalidByteError char | ErrLength

text \<open>\<open>reverseHexTable\<close>: the value of a hexadecimal digit, of either case.\<close>

definition fromHexChar :: "char \<Rightarrow> nat option" where
  "fromHexChar c =
     (let n = (of_char c :: nat) in
      if 48 \<le> n \<and> n \<le> 57 then Some (n - 48)
      else if 97 \<le> n \<and> n \<le> 102 then Some (n - 87)
      else if 65 \<le> n \<and> n \<le> 70 then Some (n - 55)
      else None)"

text \<open>
  \<open>hex.DecodeString\<close>: pairs of digits, left to right; the first invalid character is
  reported, and an odd length only when the dangling character is itself a digit.
\<close>

fun DecodeString :: "string \<Rightarrow> hex_error + byte list" where
  "DecodeString [] = Inr []"
| "DecodeString [p] =
     (case fromHexChar p of None \<Rightarrow> Inl (InvalidByteError p) | Some a \<Rightarrow> Inl ErrLength)"
| "DecodeString (p # q # rest) =
     (case fromHexChar p of
        None \<Rightarrow> Inl (InvalidByteError p)
      | Some a \<Rightarrow>
          (case fromHexChar q of
             None \<Rightarrow> Inl (InvalidByteError q)
           | Some b \<Rightarrow>
               (case DecodeString rest of
                  Inl e \<Rightarrow> Inl e
                | Inr bs \<Rightarrow> Inr (word_of_nat (16 * a + b) # bs))))"

definition hextable :: string where
  "hextable = ''0123456789abcdef''"

definition hexdigit :: "nat \<Rightarrow> char" where
  "hexdigit n = hextable ! (n mod 16)"

text \<open>\<open>fmt.Sprintf("%x", b)\<close> on a byte string: \<open>hextable[b>>4]\<close>, \<open>hextable[b&0x0f]\<close>.\<close>

fun Sprintf_x :: "byte list \<Rightarrow> string" where
  "Sprintf_x [] = []"
| "Sprintf_x (b # bs) = hexdigit (unat b div 16) # hexdigit (unat b mod 16) # Sprintf_x bs"

text \<open>\<open>big.Int.Bytes\<close>: the absolute value, big-endian, without leading zero bytes.\<close>

fun nat_bytes :: "nat \<Rightarrow> byte list" where
  "nat_bytes n = (if n = 0 then [] else nat_bytes (n div 256) @ [word_of_nat (n mod 256)])"

declare nat_bytes.simps [simp del]

definition big_Bytes :: "int \<Rightarrow> byte list" where
  "big_Bytes x = nat_bytes (nat \<bar>x\<bar>)"

text \<open>\<open>big.Int.SetBytes\<close>: the bytes read as a big-endian unsigned integer.\<close>

definition SetBytes :: "byte list \<Rightarrow> int" where
  "SetBytes bs = foldl (\<lambda>acc b. acc * 256 + uint b) 0 bs"

section \<open>Package value\<close>

text \<open>The struct \<open>Value\<close>; its field \<open>int\<close> is \<open>intv\<close> here, \<open>int\<close> being a constant of HOL.\<close>

record Value =
  bytes :: "byte list"
  hex :: string
  intv :: int

text \<open>The dynamic type of the \<open>interface{}\<close> argument of \<open>New\<close>.\<close>

datatype arg = ArgString string | ArgBytes "byte list" | ArgInt int | ArgOther

text \<open>
  How a call can end without a result. \<open>ProcessExit\<close> is \<open>log.Fatal\<close>: the error is
  logged and the process ends with \<open>os.Exit(1)\<close>, so nothing is handed back to the
  caller. \<open>DivisionByZero\<close> is the run-time panic of \<open>big.Int.Mod\<close> on a zero modulus.
  \<open>InverseBranch\<close> marks the one branch of \<open>big.Int.Exp\<close> that is not translated
  (see \<open>big_Exp\<close>).
\<close>

datatype fault = ProcessExit hex_error | DivisionByZero | InverseBranch

definition and_then :: "fault + 'a \<Rightarrow> ('a \<Rightarrow> fault + 'b) \<Rightarrow> fault + 'b" where
  "and_then r f = (case r of Inl e \<Rightarrow> Inl e | Inr x \<Rightarrow> f x)"

text \<open>\<open>New\<close> of \<open>value/value.go\<close>: the hex string is chosen first and then decoded.\<close>

definition New_hex :: "arg \<Rightarrow> string" where
  "New_hex a =
     (case a of
        ArgString v \<Rightarrow> v
      | ArgBytes v \<Rightarrow> Sprintf_x v
      | ArgInt v \<Rightarrow> Sprintf_x (big_Bytes v)
      | ArgOther \<Rightarrow> [])"

definition New :: "arg \<Rightarrow> fault + Value" where
  "New a =
     (case DecodeString (New_hex a) of
        Inl err \<Rightarrow> Inl (ProcessExit err)
      | Inr buff \<Rightarrow> Inr \<lparr>bytes = buff, hex = New_hex a, intv = SetBytes buff\<rparr>)"

text \<open>
  The repository carries a second body of \<open>New\<close> (the copy of package value that follows
  the tests in \<open>value/value_test.go\<close>): the bytes are chosen first, the hex string is
  printed from them, and a \<open>*big.Int\<close> argument is kept as the integer.
\<close>

definition New_bytes_first :: "arg \<Rightarrow> fault + Value" where
  "New_bytes_first a =
     (case a of
        ArgBytes v \<Rightarrow> Inr \<lparr>bytes = v, hex = Sprintf_x v, intv = SetBytes v\<rparr>
      | ArgString v \<Rightarrow>
          (case DecodeString v of
             Inl err \<Rightarrow> Inl (ProcessExit err)
           | Inr buff \<Rightarrow> Inr \<lparr>bytes = buff, hex = Sprintf_x buff, intv = SetBytes buff\<rparr>)
      | ArgInt v \<Rightarrow> Inr \<lparr>bytes = big_Bytes v, hex = Sprintf_x (big_Bytes v), intv = v\<rparr>
      | ArgOther \<Rightarrow> Inr \<lparr>bytes = [], hex = Sprintf_x [], intv = SetBytes []\<rparr>)"

text \<open>Two invariants the data model asks of a Value, as executable predicates.\<close>

definition canonical_hex :: "Value \<Rightarrow> bool" where
  "canonical_hex v = (hex v = Sprintf_x (bytes v))"



text \<open>A hex string is malformed when its length is odd or some character is no hex digit.\<close>

definition malformed :: "string \<Rightarrow> bool" where
  "malformed s = (odd (length s) \<or> (\<exists>c \<in> set s. fromHexChar c = None))"

text \<open>Whether the outcome of a call hands anything (a value or an error) back to the caller.\<close>

definition reaches_caller :: "fault + 'a \<Rightarrow> bool" where
  "reaches_caller r = (case r of Inl (ProcessExit err) \<Rightarrow> False | _ \<Rightarrow> True)"

section \<open>Arithmetic of math/big used by package engine\<close>

text \<open>
  \<open>big.Int.Exp(x, y, m)\<close>: \<open>x**y mod |m|\<close>, in \<open>[0, |m|)\<close> also for a negative \<open>x\<close>; for
  \<open>m = 0\<close> it is \<open>x**y\<close>, and \<open>1\<close> when \<open>y \<le> 0\<close>. For \<open>y < 0\<close> and \<open>m \<noteq> 0\<close> the
  library goes through a modular inverse; that branch is not translated and ends the
  model with \<open>InverseBranch\<close>. The engine never reaches it with Values made by \<open>New\<close>,
  whose integers are not negative.
\<close>

definition big_Exp :: "int \<Rightarrow> int \<Rightarrow> int \<Rightarrow> fault + int" where
  "big_Exp x y m =
     (if m = 0 then Inr (if y \<le> 0 then 1 else x ^ nat y)
      else if y < 0 then Inl InverseBranch
      else Inr ((x ^ nat y) mod \<bar>m\<bar>))"

text \<open>\<open>big.Int.Mod(x, y)\<close>: the Euclidean modulus; a zero \<open>y\<close> panics.\<close>

definition big_Mod :: "int \<Rightarrow> int \<Rightarrow> fault + int" where
  "big_Mod x y = (if y = 0 then Inl DivisionByZero else Inr (x mod \<bar>y\<bar>))"

section \<open>Package engine\<close>

text \<open>
  The implementations of the \<open>crypto.Crypto\<close> interface and the \<open>group.Group\<close> struct are
  not among the sources; the engine only calls them, so they are parameters here: a
  record of the three functions the engine uses, and a record of the two group values.
\<close>

record Crypto =
  H :: "Value list \<Rightarrow> Value"
  PasswordHash :: "Value \<Rightarrow> string \<Rightarrow> Value"
  KeyedHash :: "Value \<Rightarrow> Value \<Rightarrow> Value"

record Group =
  N :: Value
  G :: Value

record Engine =
  crypto :: Crypto
  N :: Value
  G :: Value
  k :: Value

definition New_Engine :: "Crypto \<Rightarrow> Group \<Rightarrow> Engine" where
  "New_Engine c grp =
     \<lparr>crypto = c, N = Group.N grp, G = Group.G grp,
      k = H c [Group.N grp, Group.G grp]\<rparr>"

definition K :: "Engine \<Rightarrow> Value" where
  "K e = (if hex (k e) = [] then H (crypto e) [N e, G e] else k e)"

text \<open>Whether a call of \<open>K\<close> invokes the hash function: the guard of its first branch.\<close>

definition K_calls_H :: "Engine \<Rightarrow> bool" where
  "K_calls_H e = (hex (k e) = [])"

definition modExp :: "Engine \<Rightarrow> Value \<Rightarrow> Value \<Rightarrow> fault + Value" where
  "modExp e a b =
     and_then (big_Exp (intv a) (intv b) (intv (N e))) (\<lambda>z. New (ArgInt z))"

definition CalcV :: "Engine \<Rightarrow> Value \<Rightarrow> fault + Value" where
  "CalcV e x = modExp e (G e) x"

definition CalcA :: "Engine \<Rightarrow> Value \<Rightarrow> fault + Value" where
  "CalcA e a = modExp e (G e) a"

definition CalcB :: "Engine \<Rightarrow> Value \<Rightarrow> Value \<Rightarrow> fault + Value" where
  "CalcB e b val =
     (let mul = intv (k e) * intv val in
      and_then (modExp e (G e) b) (\<lambda>gb.
      let res = mul + intv gb in
      and_then (big_Mod res (intv (N e))) (\<lambda>m. New (ArgInt m))))"

definition CalcU :: "Engine \<Rightarrow> Value \<Rightarrow> Value \<Rightarrow> Value" where
  "CalcU e aa bb = H (crypto e) [aa, bb]"

definition CalcClientS :: "Engine \<Rightarrow> Value \<Rightarrow> Value \<Rightarrow> Value \<Rightarrow> Value \<Rightarrow> fault + Value" where
  "CalcClientS e bb a x u =
     and_then (modExp e (G e) x) (\<lambda>gx.
     let mul = intv (k e) * intv gx;
         left = intv bb - mul;
         right = intv a + intv u * intv x in
     and_then (New (ArgInt left)) (\<lambda>l.
     and_then (New (ArgInt right)) (\<lambda>r. modExp e l r)))"

definition CalcServerS :: "Engine \<Rightarrow> Value \<Rightarrow> Value \<Rightarrow> Value \<Rightarrow> Value \<Rightarrow> fault + Value" where
  "CalcServerS e aa b val u =
     and_then (modExp e val u) (\<lambda>vu.
     let left = intv aa * intv vu in
     and_then (New (ArgInt left)) (\<lambda>l. modExp e l b))"

definition CalcK :: "Engine \<Rightarrow> Value \<Rightarrow> Value" where
  "CalcK e ss = H (crypto e) [ss]"

subsection \<open>The Standard variant\<close>

text \<open>\<open>Standard\<close> embeds \<open>Engine\<close> and adds no field, so its methods take the engine.\<close>

definition CalcX :: "Engine \<Rightarrow> string \<Rightarrow> string \<Rightarrow> fault + Value" where
  "CalcX e password salt =
     and_then (New (ArgString salt)) (\<lambda>s. Inr (PasswordHash (crypto e) s password))"

definition CalcM ::
  "Engine \<Rightarrow> Value \<Rightarrow> Value \<Rightarrow> Value \<Rightarrow> Value \<Rightarrow> Value \<Rightarrow> string \<Rightarrow> fault + Value" where
  "CalcM e kk aa bb ss salt username =
     (let val = intv aa + intv salt;
          val = val + intv bb in
      and_then (New (ArgInt val)) (\<lambda>m. Inr (KeyedHash (crypto e) kk m)))"

definition CalcM2 :: "Engine \<Rightarrow> Value \<Rightarrow> Value \<Rightarrow> Value \<Rightarrow> Value \<Rightarrow> fault + Value" where
  "CalcM2 e kk aa mm ss =
     (let val = intv aa + intv mm in
      and_then (New (ArgInt val)) (\<lambda>m. Inr (KeyedHash (crypto e) kk m)))"

section \<open>Values by their content, and a small instance of the interfaces\<close>

text \<open>
  The Values that \<open>New\<close> returns for a \<open>*big.Int\<close> and for a byte slice (lemmas
  \<open>New_ArgInt\<close> and \<open>New_ArgBytes\<close> below), named so that results can be written down.
\<close>

definition int_Value :: "int \<Rightarrow> Value" where
  "int_Value z = \<lparr>bytes = big_Bytes z, hex = Sprintf_x (big_Bytes z), intv = \<bar>z\<bar>\<rparr>"

definition bytes_Value :: "byte list \<Rightarrow> Value" where
  "bytes_Value bs = \<lparr>bytes = bs, hex = Sprintf_x bs, intv = SetBytes bs\<rparr>"

text \<open>A byte sequence is the minimal big-endian form of \<open>n\<close>: it reads as \<open>n\<close> and has no leading zero.\<close>

definition minimal_big_endian :: "byte list \<Rightarrow> int \<Rightarrow> bool" where
  "minimal_big_endian bs n = (SetBytes bs = n \<and> takeWhile (\<lambda>b. b = 0) bs = [])"

text \<open>
  The closed examples below need some implementation of \<open>crypto.Crypto\<close>. This one uses a
  one-byte additive checksum as its digest, with the shapes of the legacy modes: the hash
  of the concatenated raw bytes, the key derivation over salt and password, and the keyed
  hash over message and key. \<open>blank\<close> differs in a hash whose output is empty. The group
  is \<open>N = 23\<close> (a safe prime) with \<open>G = 5\<close>; \<open>group0\<close> has the degenerate modulus 0.
\<close>

definition digest :: "byte list \<Rightarrow> Value" where
  "digest bs = bytes_Value [sum_list bs]"

definition checksum :: Crypto where
  "checksum =
     \<lparr>H = (\<lambda>vs. digest (concat (map bytes vs))),
      PasswordHash =
        (\<lambda>salt password. digest (bytes salt @ map (\<lambda>c. word_of_nat (of_char c)) password)),
      KeyedHash = (\<lambda>key message. digest (bytes message @ bytes key))\<rparr>"

definition blank :: Crypto where
  "blank = checksum\<lparr>H := (\<lambda>vs. bytes_Value [])\<rparr>"

definition group23 :: Group where
  "group23 = \<lparr>Group.N = int_Value 23, Group.G = int_Value 5\<rparr>"

definition group0 :: Group where
  "group0 = \<lparr>Group.N = int_Value 0, Group.G = int_Value 5\<rparr>"

section \<open>Facts about the library functions\<close>

lemma fromHexChar_hexdigit_upto: "\<forall>n \<in> set [0..<16]. fromHexChar (hexdigit n) = Some n"
  by code_simp

lemma fromHexChar_hexdigit: "n < 16 \<Longrightarrow> fromHexChar (hexdigit n) = Some n"
  using fromHexChar_hexdigit_upto by simp

lemma byte_of_nibbles: "word_of_nat (16 * (unat b div 16) + unat b mod 16) = (b :: byte)"
proof -
  have "16 * (unat b div 16) + unat b mod 16 = unat b" by presburger
  then show ?thesis by (simp only: of_nat_unat) simp
qed

lemma DecodeString_Sprintf_x: "DecodeString (Sprintf_x bs) = Inr bs"
proof (induction bs)
  case Nil
  show ?case by simp
next
  case (Cons b bs)
  have hi: "fromHexChar (hexdigit (unat b div 16)) = Some (unat b div 16)"
    by (rule fromHexChar_hexdigit) (use unsigned_less [of b, where 'a = nat] in simp)
  have lo: "fromHexChar (hexdigit (unat b mod 16)) = Some (unat b mod 16)"
    by (rule fromHexChar_hexdigit) simp
  show ?case
    by (simp only: Sprintf_x.simps DecodeString.simps hi lo Cons.IH option.case sum.case
        byte_of_nibbles)
qed

lemma SetBytes_snoc: "SetBytes (bs @ [b]) = SetBytes bs * 256 + uint b"
  by (simp add: SetBytes_def)

lemma uint_byte_of_mod: "uint (word_of_nat (n mod 256) :: byte) = int (n mod 256)"
proof -
  have "unat (word_of_nat (n mod 256) :: byte) = n mod 256"
    by (simp add: unat_of_nat)
  then show ?thesis by (simp only: uint_nat)
qed

lemma nat_bytes_unfold:
  "n \<noteq> 0 \<Longrightarrow> nat_bytes n = nat_bytes (n div 256) @ [word_of_nat (n mod 256)]"
  by (subst nat_bytes.simps) simp

lemma SetBytes_nat_bytes: "SetBytes (nat_bytes n) = int n"
proof (induction n rule: less_induct)
  case (less n)
  show ?case
  proof (cases "n = 0")
    case True
    then show ?thesis by (simp add: SetBytes_def nat_bytes.simps)
  next
    case False
    then have "n div 256 < n" by simp
    then have ih: "SetBytes (nat_bytes (n div 256)) = int (n div 256)" by (rule less.IH)
    have "SetBytes (nat_bytes n) = int (n div 256) * 256 + int (n mod 256)"
      by (simp only: nat_bytes_unfold [OF False] SetBytes_snoc uint_byte_of_mod ih)
    also have "\<dots> = int n" by (simp add: of_nat_mod of_nat_div)
    finally show ?thesis .
  qed
qed

lemma SetBytes_big_Bytes: "SetBytes (big_Bytes x) = \<bar>x\<bar>"
  by (simp add: big_Bytes_def SetBytes_nat_bytes)


lemma nat_bytes_no_leading_zero: "takeWhile (\<lambda>b. b = 0) (nat_bytes n) = []"
proof (induction n rule: less_induct)
  case (less n)
  show ?case
  proof (cases "n = 0")
    case True
    then show ?thesis by (simp add: nat_bytes.simps)
  next
    case False
    note unfold = nat_bytes_unfold [OF False]
    show ?thesis
    proof (cases "n div 256 = 0")
      case True
      then have small: "n < 256" by (simp add: div_eq_0_iff)
      have "(word_of_nat n :: byte) \<noteq> 0"
        using False small by (simp add: word_of_nat_eq_0_iff) (use nat_dvd_not_less in blast)
      then show ?thesis using True small by (simp add: unfold nat_bytes.simps [of 0])
    next
      case nz: False
      have "n div 256 < n" using False by simp
      then have ih: "takeWhile (\<lambda>b. b = 0) (nat_bytes (n div 256)) = []" by (rule less.IH)
      have ne: "nat_bytes (n div 256) \<noteq> []"
        using nz by (simp add: nat_bytes_unfold)
      then obtain c cs where cs: "nat_bytes (n div 256) = c # cs" by (cases "nat_bytes (n div 256)") auto
      with ih have "c \<noteq> 0" by (auto split: if_splits)
      then show ?thesis by (simp only: unfold cs) simp
    qed
  qed
qed

section \<open>Facts about New\<close>

lemma New_ArgInt: "New (ArgInt z) = Inr (int_Value z)"
  by (simp add: New_def New_hex_def int_Value_def DecodeString_Sprintf_x SetBytes_big_Bytes)

lemma New_ArgBytes: "New (ArgBytes bs) = Inr (bytes_Value bs)"
  by (simp add: New_def New_hex_def bytes_Value_def DecodeString_Sprintf_x)

lemma malformed_Cons2:
  "malformed (p # q # rest) =
     (fromHexChar p = None \<or> fromHexChar q = None \<or> malformed rest)"
  by (auto simp: malformed_def)

lemma DecodeString_malformed:
  "malformed s \<Longrightarrow> \<exists>err. DecodeString s = Inl err"
proof (induction s rule: DecodeString.induct)
  case 1
  then show ?case by (simp add: malformed_def)
next
  case (2 p)
  show ?case by (simp split: option.splits)
next
  case (3 p q rest)
  show ?case
  proof (cases "fromHexChar p")
    case None
    then show ?thesis by simp
  next
    case (Some a)
    note a = this
    show ?thesis
    proof (cases "fromHexChar q")
      case None
      then show ?thesis using a by simp
    next
      case (Some b)
      from "3.prems" a Some have "malformed rest" by (simp add: malformed_Cons2)
      then obtain err where "DecodeString rest = Inl err"
        using "3.IH" [OF a Some] by blast
      then show ?thesis using a Some by simp
    qed
  qed
qed

lemma DecodeString_wellformed:
  "\<not> malformed s \<Longrightarrow> \<exists>bs. DecodeString s = Inr bs"
proof (induction s rule: DecodeString.induct)
  case 1
  then show ?case by simp
next
  case (2 p)
  then show ?case by (simp add: malformed_def)
next
  case (3 p q rest)
  from "3.prems" obtain a b where a: "fromHexChar p = Some a" and b: "fromHexChar q = Some b"
    and rest: "\<not> malformed rest"
    by (auto simp: malformed_Cons2)
  from "3.IH" [OF a b rest] obtain bs where "DecodeString rest = Inr bs" by blast
  then show ?case using a b by simp
qed

lemma New_wellformed_returns: "\<not> malformed s \<Longrightarrow> \<exists>v. New (ArgString s) = Inr v"
  using DecodeString_wellformed [of s] by (auto simp: New_def New_hex_def)

lemma New_bytes_canonical: "canonical_hex (bytes_Value bs)"
  by (simp add: canonical_hex_def bytes_Value_def)

lemma New_int_canonical: "canonical_hex (int_Value z)"
  by (simp add: canonical_hex_def int_Value_def)

lemma New_bytes_first_canonical: "New_bytes_first a = Inr v \<Longrightarrow> canonical_hex v"
  by (auto simp: New_bytes_first_def canonical_hex_def split: arg.splits sum.splits)


section \<open>The claims about Values\<close>

text \<open>
  C4. Canonical hex: the stored hex string of every constructed Value is the lower-case
  encoding of its bytes, also when the Value is made from an upper-case hex string.
  \<open>New\<close> of \<open>value/value.go\<close> keeps the string it is given: made from \<open>"AB"\<close>, the Value
  has the byte \<open>0xab\<close> and reports the hex string \<open>"AB"\<close>, while the encoding of its bytes is
  \<open>"ab"\<close>. (The byte and integer arguments, and the other body of \<open>New\<close>, are canonical:
  lemmas \<open>New_bytes_canonical\<close>, \<open>New_int_canonical\<close>, \<open>New_bytes_first_canonical\<close>.)
\<close>

theorem New_keeps_uppercase_hex:
  "New (ArgString ''AB'') = Inr \<lparr>bytes = [171], hex = ''AB'', intv = 171\<rparr>
   \<and> Sprintf_x [171] = ''ab''
   \<and> \<not> canonical_hex \<lparr>bytes = [171], hex = ''AB'', intv = 171\<rparr>"
  by (simp add: New_def New_hex_def fromHexChar_def SetBytes_def canonical_hex_def
      hexdigit_def hextable_def)




text \<open>
  C7, as the code has it. For every malformed hex string (odd length, or a character that
  is no hex digit) \<open>New\<close> produces no Value: it logs the decoding error and ends the
  process (\<open>log.Fatal\<close>); nothing, also no error value, is handed back to the caller.
\<close>

theorem New_malformed_exits:
  "malformed s \<Longrightarrow>
   (\<exists>err. New (ArgString s) = Inl (ProcessExit err)) \<and> \<not> reaches_caller (New (ArgString s))"
  using DecodeString_malformed [of s]
  by (auto simp: New_def New_hex_def reaches_caller_def)

theorem New_malformed_exits_witness:
  "malformed ''abc''
   \<and> (\<exists>err. New (ArgString ''abc'') = Inl (ProcessExit err))
   \<and> \<not> reaches_caller (New (ArgString ''abc''))"
proof -
  have bad: "malformed ''abc''" by (simp add: malformed_def)
  show ?thesis using bad New_malformed_exits [OF bad] by simp
qed

text \<open>
  C7 as it is stated asks for an error value returned to the caller. At the odd-length
  string \<open>"abc"\<close> the call ends in the process exit instead.
\<close>

theorem New_odd_length_not_returned:
  "New (ArgString ''abc'') = Inl (ProcessExit ErrLength)
   \<and> \<not> reaches_caller (New (ArgString ''abc''))"
  by (simp add: New_def New_hex_def fromHexChar_def reaches_caller_def)

text \<open>
  C10. Constructing a Value from the integer 0 gives the empty byte sequence and the empty
  hex string, not a single zero byte; a zero Value therefore adds no byte to the
  concatenation of raw bytes that a hash is computed over.
\<close>

theorem New_zero_is_empty:
  "New (ArgInt 0) = Inr \<lparr>bytes = [], hex = [], intv = 0\<rparr>
   \<and> length (bytes \<lparr>bytes = [], hex = [], intv = 0\<rparr>) = 0
   \<and> concat (map bytes (vs @ [\<lparr>bytes = [], hex = [], intv = 0\<rparr>] @ ws))
       = concat (map bytes (vs @ ws))"
  by (simp add: New_ArgInt int_Value_def big_Bytes_def nat_bytes.simps)

section \<open>Facts about the engine\<close>

lemma and_then_Inr: "and_then (Inr x) f = f x"
  by (simp add: and_then_def)

lemma and_then_Inl: "and_then (Inl e) f = Inl e"
  by (simp add: and_then_def)

lemma intv_int_Value: "intv (int_Value z) = \<bar>z\<bar>"
  by (simp add: int_Value_def)

lemma big_Exp_pos: "0 < m \<Longrightarrow> 0 \<le> y \<Longrightarrow> big_Exp x y m = Inr ((x ^ nat y) mod m)"
  by (simp add: big_Exp_def)

lemma modExp_pos:
  "0 < intv (N e) \<Longrightarrow> 0 \<le> intv b \<Longrightarrow>
   modExp e a b = Inr (int_Value ((intv a ^ nat (intv b)) mod intv (N e)))"
  by (simp add: modExp_def big_Exp_pos and_then_Inr New_ArgInt)

lemma CalcClientS_value:
  assumes "0 < intv (N e)" and "0 \<le> intv x"
  shows "CalcClientS e bb a x u =
     Inr (int_Value
       ((\<bar>intv bb - intv (k e) * ((intv (G e) ^ nat (intv x)) mod intv (N e))\<bar>
           ^ nat \<bar>intv a + intv u * intv x\<bar>) mod intv (N e)))"
  using assms
  by (simp add: CalcClientS_def modExp_pos and_then_Inr New_ArgInt intv_int_Value Let_def)

lemma CalcServerS_value:
  assumes "0 < intv (N e)" and "0 \<le> intv u" and "0 \<le> intv b"
  shows "CalcServerS e aa b val u =
     Inr (int_Value
       ((\<bar>intv aa * ((intv val ^ nat (intv u)) mod intv (N e))\<bar> ^ nat (intv b)) mod intv (N e)))"
  using assms
  by (simp add: CalcServerS_def modExp_pos and_then_Inr New_ArgInt intv_int_Value Let_def)

lemma CalcB_value:
  assumes "0 < intv (N e)" and "0 \<le> intv b"
  shows "CalcB e b val =
     Inr (int_Value
       ((intv (k e) * intv val + (intv (G e) ^ nat (intv b)) mod intv (N e)) mod intv (N e)))"
  using assms
  by (simp add: CalcB_def modExp_pos and_then_Inr New_ArgInt intv_int_Value big_Mod_def Let_def)

lemma int_Value_byte:
  "int_Value 1 = bytes_Value [1]" "int_Value 3 = bytes_Value [3]" "int_Value 4 = bytes_Value [4]"
  "int_Value 5 = bytes_Value [5]" "int_Value 6 = bytes_Value [6]" "int_Value 10 = bytes_Value [10]"
  "int_Value 17 = bytes_Value [17]" "int_Value 23 = bytes_Value [23]"
  "int_Value 28 = bytes_Value [28]"
  by (simp_all add: int_Value_def bytes_Value_def big_Bytes_def nat_bytes.simps SetBytes_def)

lemma New_Engine_sel:
  "crypto (New_Engine c grp) = c" "N (New_Engine c grp) = Group.N grp"
  "G (New_Engine c grp) = Group.G grp" "k (New_Engine c grp) = H c [Group.N grp, Group.G grp]"
  by (simp_all add: New_Engine_def)

lemma checksum_sel:
  "H checksum vs = digest (concat (map bytes vs))"
  "PasswordHash checksum salt password =
     digest (bytes salt @ map (\<lambda>c. word_of_nat (of_char c)) password)"
  "KeyedHash checksum key message = digest (bytes message @ bytes key)"
  by (simp_all add: checksum_def)

lemma group23_sel: "Group.N group23 = int_Value 23" "Group.G group23 = int_Value 5"
  by (simp_all add: group23_def)

lemma bytes_int_Value_small:
  "bytes (int_Value 1) = [1]" "bytes (int_Value 4) = [4]" "bytes (int_Value 5) = [5]"
  "bytes (int_Value 23) = [23]"
  by (simp_all add: int_Value_def big_Bytes_def nat_bytes.simps)

lemma digest_small:
  "digest [23, 5] = int_Value 28" "digest [4, 1] = int_Value 5"
  by (simp_all add: digest_def int_Value_byte)

lemma k_engine23: "k (New_Engine checksum group23) = int_Value 28"
  by (simp add: New_Engine_sel checksum_sel group23_sel bytes_int_Value_small digest_small)

lemmas engine23 = New_Engine_sel(1,2,3) k_engine23 group23_sel intv_int_Value

lemma run23_CalcX: "CalcX (New_Engine checksum group23) ''secret'' ''7d'' = Inr (int_Value 3)"
  by (simp add: CalcX_def New_def New_hex_def fromHexChar_def and_then_Inr New_Engine_sel
      checksum_sel digest_def int_Value_byte bytes_Value_def SetBytes_def)

lemma run23_CalcV: "CalcV (New_Engine checksum group23) (int_Value 3) = Inr (int_Value 10)"
  by (simp add: CalcV_def modExp_pos engine23)

lemma run23_CalcA: "CalcA (New_Engine checksum group23) (int_Value 4) = Inr (int_Value 4)"
  by (simp add: CalcA_def modExp_pos engine23)

lemma run23_CalcB: "CalcB (New_Engine checksum group23) (int_Value 5) (int_Value 10) = Inr (int_Value 1)"
  by (simp add: CalcB_value engine23)

lemma run23_CalcU: "CalcU (New_Engine checksum group23) (int_Value 4) (int_Value 1) = int_Value 5"
  by (simp add: CalcU_def New_Engine_sel checksum_sel bytes_int_Value_small digest_small)

lemma run23_CalcClientS: "CalcClientS (New_Engine checksum group23) (int_Value 1) (int_Value 4) (int_Value 3) (int_Value 5) = Inr (int_Value 6)"
  by (simp add: CalcClientS_value engine23)

lemma run23_CalcServerS: "CalcServerS (New_Engine checksum group23) (int_Value 4) (int_Value 5) (int_Value 10) (int_Value 5) = Inr (int_Value 17)"
  by (simp add: CalcServerS_value engine23)

lemma run23_secrets_differ: "int_Value 6 \<noteq> int_Value 17"
  by (simp add: int_Value_byte bytes_Value_def)

lemma modExp_zero_modulus:
  "intv (N e) = 0 \<Longrightarrow>
   modExp e a b = Inr (int_Value (if intv b \<le> 0 then 1 else intv a ^ nat (intv b)))"
  by (simp add: modExp_def big_Exp_def and_then_Inr New_ArgInt)

lemma CalcB_zero_modulus: "intv (N e) = 0 \<Longrightarrow> CalcB e b val = Inl DivisionByZero"
  by (simp add: CalcB_def modExp_zero_modulus and_then_Inr big_Mod_def Let_def and_then_Inl)

lemma int_Value_below: "0 < n \<Longrightarrow> 0 \<le> intv (int_Value (z mod n)) \<and> intv (int_Value (z mod n)) < n"
  by (simp add: intv_int_Value)

text \<open>With a = 3 instead of 4 the exponent \<open>a + u * x = 36\<close> is even, and the two sides agree.\<close>

lemma run23_agree_for_even_exponent:
  "CalcA (New_Engine checksum group23) (int_Value 3) = Inr (int_Value 10)
   \<and> CalcU (New_Engine checksum group23) (int_Value 10) (int_Value 1) = int_Value 11
   \<and> CalcClientS (New_Engine checksum group23)
         (int_Value 1) (int_Value 3) (int_Value 3) (int_Value 11) = Inr (int_Value 4)
   \<and> CalcServerS (New_Engine checksum group23)
         (int_Value 10) (int_Value 5) (int_Value 10) (int_Value 11) = Inr (int_Value 4)"
proof -
  have u: "CalcU (New_Engine checksum group23) (int_Value 10) (int_Value 1) = int_Value 11"
    by (simp add: CalcU_def New_Engine_sel checksum_sel digest_def int_Value_def bytes_Value_def
        big_Bytes_def nat_bytes.simps SetBytes_def)
  show ?thesis
    using u by (simp add: CalcA_def modExp_pos CalcClientS_value CalcServerS_value engine23)
qed

section \<open>The claims about the engine\<close>

text \<open>
  C1. Protocol soundness: client and server premaster secrets agree.
  Evaluated at: digest = checksum, N = 23, G = 5, password "secret", salt "7d",
  a = 4, b = 5. Every value is derived by the engine as the claim prescribes
  (x = 3, v = 10, A = 4, B = 1, u = 5); the client obtains 6 and the server 17.
\<close>

theorem client_server_secrets_differ:
  "CalcX (New_Engine checksum group23) ''secret'' ''7d'' = Inr (int_Value 3)
   \<and> CalcV (New_Engine checksum group23) (int_Value 3) = Inr (int_Value 10)
   \<and> CalcA (New_Engine checksum group23) (int_Value 4) = Inr (int_Value 4)
   \<and> CalcB (New_Engine checksum group23) (int_Value 5) (int_Value 10) = Inr (int_Value 1)
   \<and> CalcU (New_Engine checksum group23) (int_Value 4) (int_Value 1) = int_Value 5
   \<and> CalcClientS (New_Engine checksum group23)
         (int_Value 1) (int_Value 4) (int_Value 3) (int_Value 5) = Inr (int_Value 6)
   \<and> CalcServerS (New_Engine checksum group23)
         (int_Value 4) (int_Value 5) (int_Value 10) (int_Value 5) = Inr (int_Value 17)
   \<and> int_Value 6 \<noteq> int_Value 17"
  by (simp only: run23_CalcX run23_CalcV run23_CalcA run23_CalcB run23_CalcU run23_CalcClientS
      run23_CalcServerS run23_secrets_differ simp_thms)

text \<open>
  C2. In \<open>CalcClientS\<close> the base \<open>B - k * G^x\<close> is reduced into \<open>[0, N)\<close> by the
  mathematical modulo before the exponentiation, never replaced by its absolute value.
  Evaluated at B = 1, a = 4, x = 3, u = 5 with k = 28, G = 5, N = 23: the base is
  \<open>1 - 28 * 10 = - 279\<close>; the code returns \<open>279 ^ 19 mod 23 = 6\<close>, the claim asks for
  \<open>(- 279 mod 23) ^ 19 mod 23 = 17\<close>.
\<close>

theorem CalcClientS_takes_absolute_base:
  "CalcClientS (New_Engine checksum group23)
      (int_Value 1) (int_Value 4) (int_Value 3) (int_Value 5) = Inr (int_Value 6)
   \<and> intv (int_Value 1) - intv (k (New_Engine checksum group23)) * (5 ^ 3 mod 23) = - 279
   \<and> \<bar>- 279\<bar> ^ 19 mod 23 = (6 :: int)
   \<and> (- 279 mod 23) ^ 19 mod 23 = (17 :: int)"
  by (simp add: run23_CalcClientS engine23)

text \<open>
  C3, as the code has it. For a modulus \<open>N > 0\<close> and exponents that are not negative (as
  the integers of all Values made by \<open>New\<close> are), \<open>CalcV\<close>, \<open>CalcA\<close>, \<open>CalcB\<close>,
  \<open>CalcClientS\<close> and \<open>CalcServerS\<close> return a Value whose integer lies in \<open>[0, N)\<close>.
  \<open>K\<close>, \<open>CalcU\<close> and \<open>CalcK\<close> return the output of the hash as it is.
\<close>

theorem modular_results_below_N:
  assumes "0 < intv (N e)" and "0 \<le> intv x" and "0 \<le> intv a" and "0 \<le> intv b"
    and "0 \<le> intv u"
  shows "(\<exists>r. CalcV e x = Inr r \<and> 0 \<le> intv r \<and> intv r < intv (N e))
       \<and> (\<exists>r. CalcA e a = Inr r \<and> 0 \<le> intv r \<and> intv r < intv (N e))
       \<and> (\<exists>r. CalcB e b val = Inr r \<and> 0 \<le> intv r \<and> intv r < intv (N e))
       \<and> (\<exists>r. CalcClientS e bb a x u = Inr r \<and> 0 \<le> intv r \<and> intv r < intv (N e))
       \<and> (\<exists>r. CalcServerS e aa b val u = Inr r \<and> 0 \<le> intv r \<and> intv r < intv (N e))
       \<and> K e = (if hex (k e) = [] then H (crypto e) [N e, G e] else k e)
       \<and> CalcU e aa bb = H (crypto e) [aa, bb]
       \<and> CalcK e ss = H (crypto e) [ss]"
proof -
  note below = int_Value_below [OF assms(1)]
  have v: "\<exists>r. CalcV e x = Inr r \<and> 0 \<le> intv r \<and> intv r < intv (N e)"
    using below by (simp add: CalcV_def modExp_pos [OF assms(1,2)])
  have a: "\<exists>r. CalcA e a = Inr r \<and> 0 \<le> intv r \<and> intv r < intv (N e)"
    using below by (simp add: CalcA_def modExp_pos [OF assms(1,3)])
  have b: "\<exists>r. CalcB e b val = Inr r \<and> 0 \<le> intv r \<and> intv r < intv (N e)"
    using below by (simp add: CalcB_value [OF assms(1,4)])
  have c: "\<exists>r. CalcClientS e bb a x u = Inr r \<and> 0 \<le> intv r \<and> intv r < intv (N e)"
    using below by (simp add: CalcClientS_value [OF assms(1,2)])
  have s: "\<exists>r. CalcServerS e aa b val u = Inr r \<and> 0 \<le> intv r \<and> intv r < intv (N e)"
    using below by (simp add: CalcServerS_value [OF assms(1,5,4)])
  show ?thesis
    using v a b c s by (simp add: K_def CalcU_def CalcK_def)
qed

theorem modular_results_below_N_witness:
  "0 < intv (N (New_Engine checksum group23))
   \<and> 0 \<le> intv (int_Value 3) \<and> 0 \<le> intv (int_Value 4) \<and> 0 \<le> intv (int_Value 5)
   \<and> CalcV (New_Engine checksum group23) (int_Value 3) = Inr (int_Value 10)
   \<and> (\<exists>r. CalcV (New_Engine checksum group23) (int_Value 3) = Inr r
           \<and> 0 \<le> intv r \<and> intv r < intv (N (New_Engine checksum group23)))
   \<and> (\<exists>r. CalcB (New_Engine checksum group23) (int_Value 5) (int_Value 10) = Inr r
           \<and> 0 \<le> intv r \<and> intv r < intv (N (New_Engine checksum group23)))
   \<and> (\<exists>r. CalcClientS (New_Engine checksum group23)
              (int_Value 1) (int_Value 4) (int_Value 3) (int_Value 5) = Inr r
           \<and> 0 \<le> intv r \<and> intv r < intv (N (New_Engine checksum group23)))"
proof -
  have n: "0 < intv (N (New_Engine checksum group23))" by (simp add: engine23)
  have x: "0 \<le> intv (int_Value 3)" and a: "0 \<le> intv (int_Value 4)"
    and b: "0 \<le> intv (int_Value 5)"
    by (simp_all add: intv_int_Value)
  show ?thesis
    using n x a b
      modular_results_below_N [OF n x a b b, of "int_Value 10" "int_Value 1" "int_Value 4"]
    by (simp add: run23_CalcV)
qed

text \<open>
  C3 as it is stated covers \<open>K\<close> too. With N = 23 and the checksum digest the multiplier
  is 28, which is not below N.
\<close>

theorem K_not_below_N:
  "intv (K (New_Engine checksum group23)) = 28
   \<and> intv (N (New_Engine checksum group23)) = 23
   \<and> \<not> intv (K (New_Engine checksum group23)) < intv (N (New_Engine checksum group23))"
  by (simp add: K_def engine23 int_Value_def big_Bytes_def nat_bytes.simps hexdigit_def
      hextable_def)

text \<open>
  C6. \<open>Standard.CalcM\<close> adds the integers of A, salt and B with ordinary addition, makes a
  Value of the sum in its minimal big-endian byte form, and returns the keyed hash of that
  Value under K; S and the username do not enter the result.
\<close>

theorem CalcM_integer_sum:
  "CalcM e kk aa bb ss salt username
     = Inr (KeyedHash (crypto e) kk (int_Value (intv aa + intv salt + intv bb)))
   \<and> CalcM e kk aa bb ss' salt username' = CalcM e kk aa bb ss salt username
   \<and> minimal_big_endian (bytes (int_Value (intv aa + intv salt + intv bb)))
         \<bar>intv aa + intv salt + intv bb\<bar>
   \<and> (0 \<le> intv aa \<and> 0 \<le> intv salt \<and> 0 \<le> intv bb \<longrightarrow>
        minimal_big_endian (bytes (int_Value (intv aa + intv salt + intv bb)))
          (intv aa + intv salt + intv bb))"
proof -
  have m: "minimal_big_endian (bytes (int_Value z)) \<bar>z\<bar>" for z
    by (simp add: minimal_big_endian_def int_Value_def SetBytes_big_Bytes)
      (simp add: big_Bytes_def nat_bytes_no_leading_zero)
  have "\<bar>intv aa + intv salt + intv bb\<bar> = intv aa + intv salt + intv bb"
    if "0 \<le> intv aa \<and> 0 \<le> intv salt \<and> 0 \<le> intv bb"
    using that by simp
  then show ?thesis
    using m [of "intv aa + intv salt + intv bb"]
    by (auto simp: CalcM_def Let_def New_ArgInt and_then_Inr)
qed

theorem CalcM_integer_sum_witness:
  "0 \<le> intv (int_Value 4) \<and> 0 \<le> intv (int_Value 125) \<and> 0 \<le> intv (int_Value 1)
   \<and> CalcM (New_Engine checksum group23) (int_Value 6) (int_Value 4) (int_Value 1)
         (int_Value 6) (int_Value 125) ''alice''
       = Inr (KeyedHash checksum (int_Value 6) (int_Value 130))
   \<and> minimal_big_endian (bytes (int_Value 130)) 130"
proof -
  have pos: "0 \<le> intv (int_Value 4) \<and> 0 \<le> intv (int_Value 125) \<and> 0 \<le> intv (int_Value 1)"
    by (simp add: intv_int_Value)
  show ?thesis
    using pos
      CalcM_integer_sum [of "New_Engine checksum group23" "int_Value 6" "int_Value 4"
        "int_Value 1" "int_Value 6" "int_Value 125" "''alice''" "int_Value 6" "''alice''"]
    by (simp add: intv_int_Value New_Engine_sel)
qed

text \<open>
  C8, as the code has it. Constructing an Engine with \<open>N = 0\<close> does not fail: \<open>New\<close>
  checks nothing and returns an Engine holding the group and \<open>k = H(N, G)\<close>. The failure
  comes with use: \<open>CalcB\<close> panics on the division by zero, while \<open>CalcV\<close> returns the
  power \<open>G^x\<close> without any reduction.
\<close>

theorem New_Engine_unchecked:
  "intv (Group.N grp) = 0 \<Longrightarrow>
   New_Engine c grp
     = \<lparr>crypto = c, N = Group.N grp, G = Group.G grp, k = H c [Group.N grp, Group.G grp]\<rparr>
   \<and> CalcB (New_Engine c grp) b val = Inl DivisionByZero
   \<and> CalcV (New_Engine c grp) x
     = Inr (int_Value (if intv x \<le> 0 then 1 else intv (Group.G grp) ^ nat (intv x)))"
  by (simp add: CalcB_zero_modulus CalcV_def modExp_zero_modulus New_Engine_sel)

theorem New_Engine_unchecked_witness:
  "intv (Group.N group0) = 0
   \<and> CalcB (New_Engine checksum group0) (int_Value 5) (int_Value 10) = Inl DivisionByZero
   \<and> CalcV (New_Engine checksum group0) (int_Value 3) = Inr (int_Value 125)"
proof -
  have z: "intv (Group.N group0) = 0" by (simp add: group0_def intv_int_Value)
  note at0 = New_Engine_unchecked [OF z, of checksum "int_Value 5" "int_Value 10" "int_Value 3"]
  from at0 have b: "CalcB (New_Engine checksum group0) (int_Value 5) (int_Value 10)
      = Inl DivisionByZero"
    by blast
  from at0 have v: "CalcV (New_Engine checksum group0) (int_Value 3)
      = Inr (int_Value (if intv (int_Value 3) \<le> 0 then 1
                        else intv (Group.G group0) ^ nat (intv (int_Value 3))))"
    by blast
  have "intv (Group.G group0) = 5" by (simp add: group0_def intv_int_Value)
  then show ?thesis
    using z b v by (simp add: intv_int_Value)
qed

text \<open>
  C8 as it is stated asks construction to fail for \<open>N = 0\<close>. With the group \<open>(0, 5)\<close> the
  constructor returns this Engine, and the first failure is the panic of \<open>CalcB\<close>.
\<close>

theorem New_Engine_zero_modulus_returns:
  "New_Engine checksum group0
     = \<lparr>crypto = checksum, N = int_Value 0, G = int_Value 5, k = int_Value 5\<rparr>
   \<and> intv (N (New_Engine checksum group0)) = 0
   \<and> CalcB (New_Engine checksum group0) (int_Value 5) (int_Value 10) = Inl DivisionByZero"
proof -
  have k5: "H checksum [int_Value 0, int_Value 5] = int_Value 5"
    by (simp add: checksum_sel digest_def int_Value_def bytes_Value_def big_Bytes_def
        nat_bytes.simps SetBytes_def)
  have n0: "intv (N (New_Engine checksum group0)) = 0"
    by (simp add: New_Engine_sel group0_def intv_int_Value)
  show ?thesis
    using k5 n0 by (simp add: CalcB_zero_modulus) (simp add: New_Engine_def group0_def)
qed

text \<open>
  C9, as the code has it. \<open>K\<close> returns the cached multiplier when its hex string is not
  empty; when it is empty, \<open>K\<close> calls \<open>H(N, G)\<close> and returns that. There is no flag: the
  empty encoding is what stands for "not computed". For an Engine made by \<open>New\<close> the value
  returned is \<open>H(N, G)\<close> in both cases.
\<close>

theorem K_cached_unless_empty:
  "(hex (k e) \<noteq> [] \<longrightarrow> K e = k e \<and> \<not> K_calls_H e)
   \<and> (hex (k e) = [] \<longrightarrow> K e = H (crypto e) [N e, G e] \<and> K_calls_H e)
   \<and> K (New_Engine c grp) = H c [Group.N grp, Group.G grp]"
  by (simp add: K_def K_calls_H_def New_Engine_sel)

theorem K_cached_unless_empty_witness:
  "hex (k (New_Engine checksum group23)) \<noteq> []
   \<and> K (New_Engine checksum group23) = k (New_Engine checksum group23)
   \<and> \<not> K_calls_H (New_Engine checksum group23)
   \<and> hex (k (New_Engine blank group23)) = []
   \<and> K (New_Engine blank group23) = H (crypto (New_Engine blank group23))
        [N (New_Engine blank group23), G (New_Engine blank group23)]
   \<and> K_calls_H (New_Engine blank group23)"
proof -
  have full: "hex (k (New_Engine checksum group23)) \<noteq> []"
    by (simp add: k_engine23 int_Value_def big_Bytes_def nat_bytes.simps)
  have empty: "hex (k (New_Engine blank group23)) = []"
    by (simp add: New_Engine_sel blank_def bytes_Value_def)
  show ?thesis
    using full empty
      K_cached_unless_empty [of "New_Engine checksum group23" checksum group23]
      K_cached_unless_empty [of "New_Engine blank group23" blank group23]
    by simp
qed

text \<open>
  C9 as it is stated has an empty cached hash output returned without another hash call.
  With the hash of \<open>blank\<close>, whose output is empty, the Engine made by \<open>New\<close> caches an
  empty \<open>k\<close>, and \<open>K\<close> calls the hash again.
\<close>

theorem K_recomputes_empty_cache:
  "bytes (k (New_Engine blank group23)) = []
   \<and> hex (k (New_Engine blank group23)) = []
   \<and> K_calls_H (New_Engine blank group23)"
  by (simp add: K_calls_H_def New_Engine_sel blank_def bytes_Value_def)

end
